theory Spec2Isabelle
  imports Complex_Main "HOL-Library.Sublist" "HOL-Library.Char_ord" "HOL-Library.List_Lexorder"
begin

section \<open>The context optimizer of optimize.py\<close>

text \<open>
  The program trims a conversation (a list of messages) to a token budget. The model below
  follows \<^verbatim>\<open>src/optimize.py\<close> function by function.

  Conventions of the embedding:
  \<^item> A Python \<^verbatim>\<open>str\<close> is a \<^typ>\<open>string\<close>; a character stands for the code point of
    the same number. The character classes (\<^verbatim>\<open>str.split\<close>, \<^verbatim>\<open>str.strip\<close>,
    \<^verbatim>\<open>str.lower\<close>, the regular expressions \<^verbatim>\<open>\w\<close> and \<^verbatim>\<open>\d\<close>) are those of
    ASCII text: a character above 127 counts as an ordinary symbol (no space, no digit, no
    letter, unchanged by lowering).
  \<^item> A Python \<^verbatim>\<open>float\<close> priority is a \<^typ>\<open>real\<close>. Every priority the program
    computes is a multiple of one half between -2 and 12, which binary floating point represents
    and adds exactly, so no rounding is lost; a caller-supplied priority is any real
    number (not NaN).
  \<^item> A Python \<^verbatim>\<open>int\<close> is an \<^typ>\<open>int\<close>.
  \<^item> \<^verbatim>\<open>hashlib.md5(s.encode()).hexdigest()\<close> is library code: the functions that hash take
    the digest function as their first argument \<open>md5\<close>.
  \<^item> A raised exception is the result \<open>None\<close>.
\<close>

subsection \<open>Strings\<close>

definition is_space :: "char \<Rightarrow> bool" where
  \<comment> \<open>\<^verbatim>\<open>str.isspace\<close> on ASCII: TAB, LF, VT, FF, CR, FS, GS, RS, US and the space\<close>
  "is_space c \<longleftrightarrow>
     (CHR 0x09 \<le> c \<and> c \<le> CHR 0x0D) \<or> (CHR 0x1C \<le> c \<and> c \<le> CHR 0x1F) \<or> c = CHR '' ''"

definition is_digit :: "char \<Rightarrow> bool" where
  "is_digit c \<longleftrightarrow> CHR ''0'' \<le> c \<and> c \<le> CHR ''9''"

definition is_upper :: "char \<Rightarrow> bool" where
  "is_upper c \<longleftrightarrow> CHR ''A'' \<le> c \<and> c \<le> CHR ''Z''"

definition is_lower :: "char \<Rightarrow> bool" where
  "is_lower c \<longleftrightarrow> CHR ''a'' \<le> c \<and> c \<le> CHR ''z''"

definition is_word_char :: "char \<Rightarrow> bool" where
  \<comment> \<open>the class \<^verbatim>\<open>\w\<close>: letters, digits and the underscore\<close>
  "is_word_char c \<longleftrightarrow> is_lower c \<or> is_upper c \<or> is_digit c \<or> c = CHR ''_''"

definition lower_char :: "char \<Rightarrow> char" where
  \<comment> \<open>a capital letter becomes its small letter, every other character stays\<close>
  "lower_char c =
     (case map_of (zip ''ABCDEFGHIJKLMNOPQRSTUVWXYZ'' ''abcdefghijklmnopqrstuvwxyz'') c of
        Some l \<Rightarrow> l
      | None \<Rightarrow> c)"

definition py_lower :: "string \<Rightarrow> string" where
  \<comment> \<open>\<^verbatim>\<open>str.lower()\<close>\<close>
  "py_lower s = map lower_char s"

definition py_strip :: "string \<Rightarrow> string" where
  \<comment> \<open>\<^verbatim>\<open>str.strip()\<close>: leading and trailing whitespace removed\<close>
  "py_strip s = rev (dropWhile is_space (rev (dropWhile is_space s)))"

fun runs :: "(char \<Rightarrow> bool) \<Rightarrow> string \<Rightarrow> string \<Rightarrow> string list" where
  \<comment> \<open>the maximal runs of characters that satisfy \<open>P\<close>, left to right; \<open>cur\<close> is the run being
      read, last character first\<close>
  "runs P cur [] = (if cur = [] then [] else [rev cur])"
| "runs P cur (c # cs) =
     (if P c then runs P (c # cur) cs
      else if cur = [] then runs P [] cs
      else rev cur # runs P [] cs)"

definition py_split :: "string \<Rightarrow> string list" where
  \<comment> \<open>\<^verbatim>\<open>str.split()\<close> with no argument: the maximal runs of non-whitespace\<close>
  "py_split s = runs (\<lambda>c. \<not> is_space c) [] s"

definition findall_w :: "string \<Rightarrow> string list" where
  \<comment> \<open>\<^verbatim>\<open>re.findall(r'\w+', s)\<close>\<close>
  "findall_w s = runs is_word_char [] s"

definition search_qmark_end :: "string \<Rightarrow> bool" where
  \<comment> \<open>\<^verbatim>\<open>re.search(r'\?$', s)\<close>: a question mark at the end of the string, or just before a
      newline that ends it\<close>
  "search_qmark_end s \<longleftrightarrow>
     suffix ''?'' s \<or> suffix [CHR ''?'', CHR 0x0A] s"

fun join :: "string \<Rightarrow> string list \<Rightarrow> string" where
  \<comment> \<open>\<^verbatim>\<open>sep.join(xs)\<close>\<close>
  "join sep [] = []"
| "join sep [x] = x"
| "join sep (x # y # ys) = x @ sep @ join sep (y # ys)"

definition any_in :: "string list \<Rightarrow> string \<Rightarrow> bool" where
  \<comment> \<open>\<^verbatim>\<open>any(word in s for word in ws)\<close>; \<^verbatim>\<open>word in s\<close> is the substring test\<close>
  "any_in ws s \<longleftrightarrow> list_ex (\<lambda>word. sublist word s) ws"

subsection \<open>Messages\<close>

datatype json = JNull | JBool bool | JNum int | JStr string

record Message =
  role :: string
  content :: string
  timestamp :: "string option"
  metadata :: "(string \<times> json) list option"
  priority :: real
  tokens :: int

definition estimate_tokens :: "string \<Rightarrow> int" where
  "estimate_tokens text = int (length text) div 4 + int (length (py_split text)) div 2"

definition post_init :: "Message \<Rightarrow> Message" where
  \<comment> \<open>\<^verbatim>\<open>Message.__post_init__\<close>\<close>
  "post_init self = (if tokens self = 0 then self\<lparr>tokens := estimate_tokens (content self)\<rparr> else self)"

definition new_Message ::
  "string \<Rightarrow> string \<Rightarrow> string option \<Rightarrow> (string \<times> json) list option \<Rightarrow> real \<Rightarrow> int \<Rightarrow> Message" where
  \<comment> \<open>the constructor the dataclass generates: the fields are stored, then
      \<^verbatim>\<open>__post_init__\<close> runs. The defaults are \<open>None\<close>, \<open>None\<close>, \<open>5\<close> and \<open>0\<close>.\<close>
  "new_Message r c ts md p t =
     post_init \<lparr>role = r, content = c, timestamp = ts, metadata = md, priority = p, tokens = t\<rparr>"

subsection \<open>Priority\<close>

definition importance_words :: "string list" where
  "importance_words = [''decide'', ''important'', ''remember'', ''prefer'', ''always'', ''never'']"

definition data_words :: "string list" where
  "data_words = [''data'', ''fact'', ''result'', ''conclusion'']"

definition problem_words :: "string list" where
  "problem_words = [''error'', ''bug'', ''fix'', ''issue'', ''problem'']"

definition greeting_words :: "string list" where
  "greeting_words = [''hello'', ''hi '', ''bye'', ''thanks'', ''thank you'']"

definition ack_words :: "string list" where
  "ack_words = [''ok'', ''okay'', ''yes'', ''no'', ''sure'', ''got it'', ''understood'']"

definition ack_applies :: "string \<Rightarrow> bool" where
  \<comment> \<open>line 69, on the lowered content: \<^verbatim>\<open>content in ['ok', 'okay', ...]\<close>, membership in a
      list of strings\<close>
  "ack_applies lowered \<longleftrightarrow> lowered \<in> set ack_words"

definition raw_priority :: "Message \<Rightarrow> real" where
  \<comment> \<open>lines 51 to 78: the value of \<^verbatim>\<open>priority\<close> before the final clamp\<close>
  "raw_priority msg =
     (let lowered = py_lower (content msg);
          p = 5;
          p = (if any_in importance_words lowered then p + 2 else p);
          p = (if search_qmark_end (py_strip (content msg)) then p + 3 / 2 else p);
          p = (if any_in data_words lowered then p + 3 / 2 else p);
          p = (if any_in problem_words lowered then p + 1 else p);
          p = (if list_ex is_digit lowered then p + 1 / 2 else p);
          p = (if any_in greeting_words lowered then p - 2 else p);
          p = (if ack_applies lowered then p - 5 / 2 else p);
          p = (if length lowered < 20 then p - 1 else p);
          p = (if count_list lowered CHR ''!'' > 2 then p - 1 / 2 else p);
          p = (if role msg = ''system'' then p + 1 else p)
      in p)"

definition calculate_priority :: "Message \<Rightarrow> real" where
  "calculate_priority msg = max 1 (min 10 (raw_priority msg))"

subsection \<open>Fingerprints\<close>

definition semantic_hash :: "(string \<Rightarrow> string) \<Rightarrow> string \<Rightarrow> string" where
  \<comment> \<open>\<^verbatim>\<open>sorted(set(words))\<close> is the sorted list of the set of words; strings compare
      lexicographically, character by character\<close>
  "semantic_hash md5 text =
     (let words = findall_w (py_lower text);
          normalized = join '' '' (sorted_list_of_set (set words))
      in take 16 (md5 normalized))"

definition md5_sample :: "string \<Rightarrow> string" where
  \<comment> \<open>the MD5 digests, in hexadecimal, of the normalized texts that the examples of this
      theory hash; the examples hash no other text\<close>
  "md5_sample s =
     (case map_of
        [(''a b'', ''0cc9cd4dd26c5137b675a0d819cb9ab0''),
         (''hello world'', ''5eb63bbbe01eeed093cb22bb8f5acdc3''),
         (''foo'', ''acbd18db4cc2f85cedef654fccc4a4d8''),
         (''alpha'', ''2c1743a391305fbf367df8e4f069f9f9''),
         (''beta'', ''987bcab01b929eb2c07877b224215c92''),
         (''gamma'', ''05b048d7242cb7b8b57cfa3b1d65ecea''),
         (''delta'', ''63bcabf86a9a991864777c631c5b7617''),
         (''omega'', ''c6d6bd7ebf806f43c76acc3681703b81'')] s of
        Some d \<Rightarrow> d
      | None \<Rightarrow> [])"

subsection \<open>Deduplication\<close>

text \<open>
  \<^verbatim>\<open>hash_groups\<close> is a \<^verbatim>\<open>defaultdict(list)\<close>. A Python dictionary lists its keys in the
  order of their first insertion, so it is an association list here: a message goes to the end
  of its key's list, and a new key goes to the end of the dictionary.
\<close>

fun group_append ::
  "string \<Rightarrow> Message \<Rightarrow> (string \<times> Message list) list \<Rightarrow> (string \<times> Message list) list" where
  \<comment> \<open>\<^verbatim>\<open>hash_groups[shash].append(msg)\<close>\<close>
  "group_append shash msg [] = [(shash, [msg])]"
| "group_append shash msg ((k, grp) # rest) =
     (if k = shash then (k, grp @ [msg]) # rest
      else (k, grp) # group_append shash msg rest)"

definition hash_groups :: "(string \<Rightarrow> string) \<Rightarrow> Message list \<Rightarrow> (string \<times> Message list) list" where
  \<comment> \<open>lines 96 to 100\<close>
  "hash_groups md5 messages =
     foldl (\<lambda>groups msg. group_append (semantic_hash md5 (content msg)) msg groups) [] messages"

fun max_from :: "Message \<Rightarrow> Message list \<Rightarrow> Message" where
  \<comment> \<open>the loop of \<^verbatim>\<open>max(group, key=lambda m: m.priority)\<close>: the best so far is replaced
      only by a message of strictly greater priority\<close>
  "max_from best [] = best"
| "max_from best (m # ms) = max_from (if priority m > priority best then m else best) ms"

definition max_priority :: "Message list \<Rightarrow> Message option" where
  \<comment> \<open>\<^verbatim>\<open>max\<close> of an empty list raises ValueError\<close>
  "max_priority grp = (case grp of [] \<Rightarrow> None | m # ms \<Rightarrow> Some (max_from m ms))"

fun pick_best :: "Message list list \<Rightarrow> Message list option" where
  \<comment> \<open>lines 102 to 106\<close>
  "pick_best [] = Some []"
| "pick_best (grp # grps) =
     (case max_priority grp of
        None \<Rightarrow> None
      | Some best \<Rightarrow> (case pick_best grps of None \<Rightarrow> None | Some unique \<Rightarrow> Some (best # unique)))"

definition deduplicate_messages ::
  "(string \<Rightarrow> string) \<Rightarrow> Message list \<Rightarrow> real \<Rightarrow> Message list option" where
  \<comment> \<open>the body never reads \<^verbatim>\<open>threshold\<close>\<close>
  "deduplicate_messages md5 messages threshold = pick_best (map snd (hash_groups md5 messages))"

subsection \<open>Summaries\<close>

definition classify ::
  "string list \<times> string list \<times> string list \<Rightarrow> Message \<Rightarrow> string list \<times> string list \<times> string list" where
  \<comment> \<open>the body of the loop of lines 121 to 128, on (decisions, facts, questions)\<close>
  "classify acc msg =
     (case acc of (decisions, facts, questions) \<Rightarrow>
        (let c = content msg in
         if any_in [''decide'', ''will'', ''going to''] (py_lower c) then (decisions @ [c], facts, questions)
         else if sublist ''?'' c then (decisions, facts, questions @ [c])
         else if any_in [''fact'', ''data'', ''result''] (py_lower c) then (decisions, facts @ [c], questions)
         else (decisions, facts, questions)))"

definition summarize_messages :: "Message list \<Rightarrow> int \<Rightarrow> Message" where
  \<comment> \<open>the body never reads \<^verbatim>\<open>max_summary_tokens\<close>; the summary's tokens are left to the
      constructor\<close>
  "summarize_messages messages max_summary_tokens =
     (case foldl classify ([], [], []) messages of (decisions, facts, questions) \<Rightarrow>
        (let summary_parts =
               (if decisions \<noteq> [] then [''**Decisions:** '' @ join ''; '' (take 3 decisions)] else [])
               @ (if facts \<noteq> [] then [''**Key facts:** '' @ join ''; '' (take 3 facts)] else [])
               @ (if questions \<noteq> [] then [''**Questions:** '' @ join ''; '' (take 2 questions)] else []);
             summary_text =
               (if summary_parts \<noteq> [] then join [CHR 0x0A] summary_parts
                else ''General conversation summary.'')
         in new_Message ''system'' (''[SUMMARY] '' @ summary_text) None
              (Some [(''type'', JStr ''summary''), (''source_count'', JNum (int (length messages)))])
              8 0))"

subsection \<open>The pipeline\<close>

definition score_all :: "Message list \<Rightarrow> Message list" where
  \<comment> \<open>lines 170 and 171: every message's priority is overwritten in place\<close>
  "score_all messages = map (\<lambda>msg. msg\<lparr>priority := calculate_priority msg\<rparr>) messages"

definition recent_tier :: "Message list \<Rightarrow> int \<Rightarrow> Message list" where
  \<comment> \<open>line 174; \<^verbatim>\<open>messages[-n:]\<close> with \<open>n > 0\<close> is the last \<open>n\<close> messages, all of them when
      there are fewer\<close>
  "recent_tier messages preserve_recent =
     (if preserve_recent > 0 then drop (length messages - nat preserve_recent) messages else [])"

definition old_tier :: "Message list \<Rightarrow> int \<Rightarrow> Message list" where
  \<comment> \<open>line 175; \<^verbatim>\<open>messages[:-n]\<close> with \<open>n > 0\<close> is all but the last \<open>n\<close> messages\<close>
  "old_tier messages preserve_recent =
     (if preserve_recent > 0 then take (length messages - nat preserve_recent) messages else messages)"

definition rank_old :: "Message list \<Rightarrow> real \<Rightarrow> Message list" where
  \<comment> \<open>lines 181 and 184: the filter, then the stable sort by descending priority\<close>
  "rank_old old_unique min_priority =
     sort_key (\<lambda>m. - priority m) (filter (\<lambda>msg. priority msg \<ge> min_priority) old_unique)"

fun greedy_loop :: "int \<Rightarrow> Message list \<Rightarrow> Message list \<times> int \<Rightarrow> Message list \<times> int" where
  \<comment> \<open>the loop of lines 190 to 195 on (optimized_old, current_tokens); \<^verbatim>\<open>break\<close> returns\<close>
  "greedy_loop target_tokens [] (optimized_old, current_tokens) = (optimized_old, current_tokens)"
| "greedy_loop target_tokens (msg # rest) (optimized_old, current_tokens) =
     (if current_tokens + tokens msg \<le> target_tokens
      then greedy_loop target_tokens rest (optimized_old @ [msg], current_tokens + tokens msg)
      else (optimized_old, current_tokens))"

definition greedy_accumulate :: "int \<Rightarrow> Message list \<Rightarrow> Message list \<Rightarrow> Message list \<times> int" where
  \<comment> \<open>lines 187 to 195\<close>
  "greedy_accumulate target_tokens recent old_filtered =
     greedy_loop target_tokens old_filtered ([], sum_list (map tokens recent))"

definition fallback ::
  "int \<Rightarrow> Message list \<Rightarrow> Message list \<Rightarrow> Message list \<times> int \<Rightarrow> Message list" where
  \<comment> \<open>lines 198 to 201: the value of \<^verbatim>\<open>optimized_old\<close> afterwards\<close>
  "fallback target_tokens old old_filtered acc =
     (case acc of (optimized_old, current_tokens) \<Rightarrow>
        if old \<noteq> [] \<and> int (length optimized_old) < int (length old_filtered) div 2
        then (let summary = summarize_messages (take 20 old_filtered) 500 in
              if current_tokens + tokens summary \<le> target_tokens
              then summary # take 10 optimized_old
              else optimized_old)
        else optimized_old)"

definition optimize_context ::
  "(string \<Rightarrow> string) \<Rightarrow> Message list \<Rightarrow> int \<Rightarrow> int \<Rightarrow> real \<Rightarrow> Message list option" where
  "optimize_context md5 messages target_tokens preserve_recent min_priority =
     (if messages = [] then Some []
      else
        (let messages = score_all messages;
             recent = recent_tier messages preserve_recent;
             old = old_tier messages preserve_recent
         in case deduplicate_messages md5 old (4 / 5) of
              None \<Rightarrow> None
            | Some old_unique \<Rightarrow>
                (let old_filtered = rank_old old_unique min_priority;
                     optimized_old =
                       fallback target_tokens old old_filtered
                         (greedy_accumulate target_tokens recent old_filtered)
                 in Some (optimized_old @ recent))))"

subsection \<open>Example conversations\<close>

definition example_messages :: "Message list" where
  \<comment> \<open>five messages with token counts given by the caller\<close>
  "example_messages =
     [new_Message ''user'' ''alpha'' None None 5 10,
      new_Message ''assistant'' ''beta'' None None 5 100,
      new_Message ''user'' ''gamma'' None None 5 100,
      new_Message ''assistant'' ''delta'' None None 5 100,
      new_Message ''user'' ''omega'' None None 5 1]"

definition example_scored :: "Message list" where
  \<comment> \<open>the five messages of \<open>example_messages\<close> with the priority 4.0, which is 5.0 less 1.0 for
      a content of fewer than twenty characters\<close>
  "example_scored =
     [new_Message ''user'' ''alpha'' None None 4 10,
      new_Message ''assistant'' ''beta'' None None 4 100,
      new_Message ''user'' ''gamma'' None None 4 100,
      new_Message ''assistant'' ''delta'' None None 4 100,
      new_Message ''user'' ''omega'' None None 4 1]"

definition example_duplicates :: "Message list" where
  \<comment> \<open>the first, second and fourth message have the words hello and world; the priorities
      are given by the caller\<close>
  "example_duplicates =
     [new_Message ''user'' ''hello world'' None None 5 0,
      new_Message ''user'' ''world hello'' None None 7 0,
      new_Message ''user'' ''foo'' None None 3 0,
      new_Message ''user'' ''Hello, World!'' None None 7 0]"

section \<open>Properties\<close>

subsection \<open>Evaluation\<close>


subsection \<open>Strings\<close>









subsection \<open>Token counts of new messages\<close>




subsection \<open>Priorities\<close>

text \<open>
  Claim C7: for every message, whatever its content and role, \<open>calculate_priority\<close> returns a
  value in the closed interval from 1 to 10.
\<close>

theorem calculate_priority_range: "1 \<le> calculate_priority msg \<and> calculate_priority msg \<le> 10"
  by (simp add: calculate_priority_def)

theorem calculate_priority_range_witness:
  "1 \<le> calculate_priority (new_Message ''system'' ''Remember: the data shows 3 errors?'' None None 5 0)
   \<and> calculate_priority (new_Message ''system'' ''Remember: the data shows 3 errors?'' None None 5 0) \<le> 10"
  using calculate_priority_range [of "new_Message ''system'' ''Remember: the data shows 3 errors?'' None None 5 0"]
  by simp




subsection \<open>Fingerprints\<close>



subsection \<open>Deduplication\<close>

text \<open>
  Claim C10: the result of \<open>deduplicate_messages\<close> does not depend on its threshold.
\<close>

theorem deduplicate_messages_threshold:
  "deduplicate_messages md5 messages t1 = deduplicate_messages md5 messages t2"
  by (simp add: deduplicate_messages_def)

theorem deduplicate_messages_threshold_witness:
  "deduplicate_messages md5_sample [new_Message ''user'' ''a b'' None None 5 0] (4 / 5)
   = deduplicate_messages md5_sample [new_Message ''user'' ''a b'' None None 5 0] (1 / 10)"
  using deduplicate_messages_threshold [of md5_sample "[new_Message ''user'' ''a b'' None None 5 0]" "4 / 5" "1 / 10"]
  by simp

text \<open>
  The dictionary after the first loop: its keys are the fingerprints of the messages in the
  order of their first appearance, and the list of a key holds the messages of that
  fingerprint in their order.
\<close>

lemma group_append_canonical:
  assumes "distinct ks"
  shows "group_append h m (map (\<lambda>k. (k, g k)) ks) =
     (if h \<in> set ks then map (\<lambda>k. (k, if k = h then g k @ [m] else g k)) ks
      else map (\<lambda>k. (k, g k)) ks @ [(h, [m])])"
  using assms by (induction ks) auto

lemma fold_groups_canonical:
  "foldl (\<lambda>groups msg. group_append (f msg) msg groups) [] ms =
     map (\<lambda>k. (k, filter (\<lambda>m. f m = k) ms)) (rev (remdups (rev (map f ms))))"
proof (induction ms rule: rev_induct)
  case Nil
  show ?case by simp
next
  case (snoc m ms)
  let ?ks = "rev (remdups (rev (map f ms)))"
  have d: "distinct ?ks" by simp
  have ks: "set ?ks = f ` set ms" by simp
  have step: "foldl (\<lambda>groups msg. group_append (f msg) msg groups) [] (ms @ [m]) =
      group_append (f m) m (map (\<lambda>k. (k, filter (\<lambda>x. f x = k) ms)) ?ks)"
    by (simp add: snoc.IH)
  show ?case
  proof (cases "f m \<in> f ` set ms")
    case True
    with d ks have "group_append (f m) m (map (\<lambda>k. (k, filter (\<lambda>x. f x = k) ms)) ?ks) =
        map (\<lambda>k. (k, if k = f m then filter (\<lambda>x. f x = k) ms @ [m] else filter (\<lambda>x. f x = k) ms)) ?ks"
      by (simp add: group_append_canonical)
    also have "\<dots> = map (\<lambda>k. (k, filter (\<lambda>x. f x = k) (ms @ [m]))) ?ks"
      by (rule map_cong) auto
    finally show ?thesis using True step by simp
  next
    case False
    with ks have notin: "f m \<notin> set ?ks" by simp
    have fs: "rev (remdups (rev (map f (ms @ [m])))) = ?ks @ [f m]"
      using False by simp
    have g1: "group_append (f m) m (map (\<lambda>k. (k, filter (\<lambda>x. f x = k) ms)) ?ks) =
        map (\<lambda>k. (k, filter (\<lambda>x. f x = k) ms)) ?ks @ [(f m, [m])]"
      using d notin by (simp add: group_append_canonical)
    have g2: "map (\<lambda>k. (k, filter (\<lambda>x. f x = k) ms)) ?ks
        = map (\<lambda>k. (k, filter (\<lambda>x. f x = k) (ms @ [m]))) ?ks"
      using notin by (intro map_cong) auto
    have g3: "filter (\<lambda>x. f x = f m) (ms @ [m]) = [m]"
    proof -
      from False have "\<forall>x\<in>set ms. f x \<noteq> f m" by (metis imageI)
      then have "filter (\<lambda>x. f x = f m) ms = []" by (simp add: filter_empty_conv)
      then show ?thesis by simp
    qed
    have h: "map (\<lambda>k. (k, filter (\<lambda>x. f x = k) (ms @ [m]))) (?ks @ [f m])
        = map (\<lambda>k. (k, filter (\<lambda>x. f x = k) (ms @ [m]))) ?ks @ [(f m, [m])]"
      by (simp only: map_append list.map g3)
    have "foldl (\<lambda>groups msg. group_append (f msg) msg groups) [] (ms @ [m]) =
        group_append (f m) m (map (\<lambda>k. (k, filter (\<lambda>x. f x = k) ms)) ?ks)"
      by (rule step)
    also have "\<dots> = map (\<lambda>k. (k, filter (\<lambda>x. f x = k) ms)) ?ks @ [(f m, [m])]"
      by (rule g1)
    also have "\<dots> = map (\<lambda>k. (k, filter (\<lambda>x. f x = k) (ms @ [m]))) ?ks @ [(f m, [m])]"
      by (simp only: g2)
    also have "\<dots> = map (\<lambda>k. (k, filter (\<lambda>x. f x = k) (ms @ [m]))) (?ks @ [f m])"
      by (rule h [symmetric])
    also have "\<dots> = map (\<lambda>k. (k, filter (\<lambda>x. f x = k) (ms @ [m])))
        (rev (remdups (rev (map f (ms @ [m])))))"
      by (simp only: fs)
    finally show ?thesis .
  qed
qed

text \<open>
  \<open>max\<close> returns the first message of greatest priority.
\<close>

lemma find_append:
  "find P (xs @ ys) = (case find P xs of None \<Rightarrow> find P ys | Some x \<Rightarrow> Some x)"
  by (induction xs) auto

lemma find_filter: "find P (filter Q xs) = find (\<lambda>x. Q x \<and> P x) xs"
  by (induction xs) auto

lemma max_from_mem: "max_from b ms \<in> set (b # ms)"
  by (induction ms arbitrary: b) auto

lemma max_from_first_max:
  assumes "find (\<lambda>x. \<forall>y\<in>set pre. priority y \<le> priority x) pre = Some b"
  shows "find (\<lambda>x. \<forall>y\<in>set (pre @ ms). priority y \<le> priority x) (pre @ ms) = Some (max_from b ms)"
  using assms
proof (induction ms arbitrary: pre b)
  case Nil
  then show ?case by simp
next
  case (Cons m ms)
  let ?b = "if priority m > priority b then m else b"
  from Cons.prems have bmax: "\<forall>y\<in>set pre. priority y \<le> priority b"
    by (auto simp: find_Some_iff)
  have "find (\<lambda>x. \<forall>y\<in>set (pre @ [m]). priority y \<le> priority x) (pre @ [m]) = Some ?b"
  proof (cases "priority m > priority b")
    case True
    with bmax have "\<not> (\<exists>x. x \<in> set pre \<and> (\<forall>y\<in>set (pre @ [m]). priority y \<le> priority x))"
      by fastforce
    then have "find (\<lambda>x. \<forall>y\<in>set (pre @ [m]). priority y \<le> priority x) pre = None"
      by (simp add: find_None_iff)
    moreover from True bmax have "\<forall>y\<in>set (pre @ [m]). priority y \<le> priority m"
      by fastforce
    ultimately show ?thesis using True by (simp add: find_append)
  next
    case False
    have "find (\<lambda>x. \<forall>y\<in>set (pre @ [m]). priority y \<le> priority x) pre
        = find (\<lambda>x. \<forall>y\<in>set pre. priority y \<le> priority x) pre"
    proof (rule find_cong)
      show "pre = pre" by simp
    next
      fix x assume x: "x \<in> set pre"
      show "(\<forall>y\<in>set (pre @ [m]). priority y \<le> priority x) = (\<forall>y\<in>set pre. priority y \<le> priority x)"
      proof
        assume "\<forall>y\<in>set (pre @ [m]). priority y \<le> priority x"
        then show "\<forall>y\<in>set pre. priority y \<le> priority x" by simp
      next
        assume a: "\<forall>y\<in>set pre. priority y \<le> priority x"
        from Cons.prems have "b \<in> set pre" by (auto simp: find_Some_iff)
        with a have "priority b \<le> priority x" by blast
        with False a show "\<forall>y\<in>set (pre @ [m]). priority y \<le> priority x" by auto
      qed
    qed
    with Cons.prems False show ?thesis by (simp add: find_append)
  qed
  then have "find (\<lambda>x. \<forall>y\<in>set ((pre @ [m]) @ ms). priority y \<le> priority x) ((pre @ [m]) @ ms)
      = Some (max_from ?b ms)"
    by (rule Cons.IH)
  then show ?case by simp
qed

lemma max_priority_first_max:
  assumes "grp \<noteq> []"
  shows "\<exists>best. max_priority grp = Some best
     \<and> find (\<lambda>x. \<forall>y\<in>set grp. priority y \<le> priority x) grp = Some best"
proof -
  from assms obtain m ms where grp: "grp = m # ms" by (cases grp) auto
  have "find (\<lambda>x. \<forall>y\<in>set [m]. priority y \<le> priority x) [m] = Some m" by simp
  then have "find (\<lambda>x. \<forall>y\<in>set ([m] @ ms). priority y \<le> priority x) ([m] @ ms) = Some (max_from m ms)"
    by (rule max_from_first_max)
  with grp show ?thesis by (simp add: max_priority_def)
qed

lemma max_priority_mem: "max_priority grp = Some best \<Longrightarrow> best \<in> set grp"
proof (cases grp)
  case Nil
  assume "max_priority grp = Some best"
  with Nil show ?thesis by (simp add: max_priority_def)
next
  case (Cons m ms)
  assume "max_priority grp = Some best"
  with Cons have "best = max_from m ms" by (simp add: max_priority_def)
  with Cons show ?thesis using max_from_mem [of m ms] by simp
qed

lemma pick_best_all:
  assumes "\<forall>grp\<in>set grps. grp \<noteq> []"
  shows "\<exists>unique. pick_best grps = Some unique
     \<and> list_all2 (\<lambda>grp best. max_priority grp = Some best) grps unique"
  using assms
proof (induction grps)
  case Nil
  show ?case by simp
next
  case (Cons grp grps)
  then obtain unique where u: "pick_best grps = Some unique"
    and all: "list_all2 (\<lambda>grp best. max_priority grp = Some best) grps unique"
    by auto
  from Cons.prems have "grp \<noteq> []" by simp
  then obtain best where "max_priority grp = Some best"
    using max_priority_first_max by blast
  with u all show ?case by simp
qed

lemma list_all2_map_key:
  "list_all2 (\<lambda>k b. f b = k) ks out \<Longrightarrow> map f out = ks"
  by (induction ks out rule: list_all2_induct) simp_all

lemma deduplicate_messages_groups:
  "\<exists>unique. deduplicate_messages md5 ms t = Some unique
     \<and> list_all2 (\<lambda>k best. max_priority (filter (\<lambda>m. semantic_hash md5 (content m) = k) ms) = Some best)
          (rev (remdups (rev (map (\<lambda>m. semantic_hash md5 (content m)) ms)))) unique"
proof -
  let ?f = "\<lambda>m. semantic_hash md5 (content m)"
  let ?ks = "rev (remdups (rev (map ?f ms)))"
  have "hash_groups md5 ms = map (\<lambda>k. (k, filter (\<lambda>m. ?f m = k) ms)) ?ks"
    unfolding hash_groups_def by (rule fold_groups_canonical)
  then have groups: "map snd (hash_groups md5 ms) = map (\<lambda>k. filter (\<lambda>m. ?f m = k) ms) ?ks"
    by (simp add: comp_def)
  have "\<forall>grp\<in>set (map (\<lambda>k. filter (\<lambda>m. ?f m = k) ms) ?ks). grp \<noteq> []"
    by (auto simp: filter_empty_conv)
  then obtain unique where u: "pick_best (map (\<lambda>k. filter (\<lambda>m. ?f m = k) ms) ?ks) = Some unique"
    and all: "list_all2 (\<lambda>grp best. max_priority grp = Some best)
                (map (\<lambda>k. filter (\<lambda>m. ?f m = k) ms) ?ks) unique"
    using pick_best_all by blast
  from all have "list_all2 (\<lambda>k best. max_priority (filter (\<lambda>m. ?f m = k) ms) = Some best) ?ks unique"
    by (simp add: list_all2_map1)
  with u groups show ?thesis by (simp add: deduplicate_messages_def)
qed

lemma deduplicate_messages_total:
  "\<exists>unique. deduplicate_messages md5 ms t = Some unique \<and> set unique \<subseteq> set ms"
proof -
  let ?f = "\<lambda>m. semantic_hash md5 (content m)"
  let ?ks = "rev (remdups (rev (map ?f ms)))"
  from deduplicate_messages_groups [of md5 ms t]
  obtain unique where u: "deduplicate_messages md5 ms t = Some unique"
    and all: "list_all2 (\<lambda>k best. max_priority (filter (\<lambda>m. ?f m = k) ms) = Some best) ?ks unique"
    by blast
  have "set unique \<subseteq> set ms"
  proof
    fix b assume "b \<in> set unique"
    then obtain i where i: "i < length unique" and b: "b = unique ! i"
      by (auto simp: in_set_conv_nth)
    from all i have "max_priority (filter (\<lambda>m. ?f m = ?ks ! i) ms) = Some (unique ! i)"
      by (rule list_all2_nthD2)
    then have "unique ! i \<in> set (filter (\<lambda>m. ?f m = ?ks ! i) ms)" by (rule max_priority_mem)
    with b show "b \<in> set ms" by simp
  qed
  with u show ?thesis by blast
qed

text \<open>
  Claim C4: \<open>deduplicate_messages\<close> returns (it raises nothing) one representative for each
  distinct fingerprint, in the order of the fingerprints' first appearance in the input; each
  representative is the first message of the input that has its fingerprint and whose
  priority is the greatest among the messages of that fingerprint.
\<close>

theorem deduplicate_messages_representatives:
  "\<exists>unique. deduplicate_messages md5 messages threshold = Some unique
     \<and> map (\<lambda>m. semantic_hash md5 (content m)) unique
         = rev (remdups (rev (map (\<lambda>m. semantic_hash md5 (content m)) messages)))
     \<and> (\<forall>best\<in>set unique.
          find (\<lambda>m. semantic_hash md5 (content m) = semantic_hash md5 (content best)
                   \<and> (\<forall>m'\<in>set messages.
                         semantic_hash md5 (content m') = semantic_hash md5 (content best)
                         \<longrightarrow> priority m' \<le> priority m))
            messages = Some best)"
proof -
  let ?f = "\<lambda>m. semantic_hash md5 (content m)"
  let ?ks = "rev (remdups (rev (map ?f messages)))"
  from deduplicate_messages_groups [of md5 messages threshold]
  obtain unique where u: "deduplicate_messages md5 messages threshold = Some unique"
    and all: "list_all2 (\<lambda>k best. max_priority (filter (\<lambda>m. ?f m = k) messages) = Some best) ?ks unique"
    by blast
  have key: "?f best = k" and first: "find (\<lambda>m. ?f m = ?f best
        \<and> (\<forall>m'\<in>set messages. ?f m' = ?f best \<longrightarrow> priority m' \<le> priority m)) messages = Some best"
    if mx: "max_priority (filter (\<lambda>m. ?f m = k) messages) = Some best" for k best
  proof -
    let ?grp = "filter (\<lambda>m. ?f m = k) messages"
    from mx have mem: "best \<in> set ?grp" by (rule max_priority_mem)
    then show k: "?f best = k" by simp
    from mem have "?grp \<noteq> []" by (metis empty_iff empty_set)
    then obtain best' where "max_priority ?grp = Some best'"
      and f: "find (\<lambda>x. \<forall>y\<in>set ?grp. priority y \<le> priority x) ?grp = Some best'"
      using max_priority_first_max by blast
    with mx have "find (\<lambda>x. \<forall>y\<in>set ?grp. priority y \<le> priority x) ?grp = Some best" by simp
    then have fP: "find (\<lambda>x. ?f x = k \<and> (\<forall>y\<in>set ?grp. priority y \<le> priority x)) messages = Some best"
      by (simp only: find_filter)
    have "find (\<lambda>m. ?f m = ?f best
        \<and> (\<forall>m'\<in>set messages. ?f m' = ?f best \<longrightarrow> priority m' \<le> priority m)) messages
        = find (\<lambda>x. ?f x = k \<and> (\<forall>y\<in>set ?grp. priority y \<le> priority x)) messages"
      by (rule find_cong) (use k in auto)
    also have "\<dots> = Some best" by (rule fP)
    finally show "find (\<lambda>m. ?f m = ?f best
        \<and> (\<forall>m'\<in>set messages. ?f m' = ?f best \<longrightarrow> priority m' \<le> priority m)) messages = Some best" .
  qed
  from all have "list_all2 (\<lambda>k best. ?f best = k) ?ks unique"
    by (rule list_all2_mono) (rule key)
  then have keys: "map ?f unique = ?ks" by (rule list_all2_map_key)
  have "\<forall>best\<in>set unique. find (\<lambda>m. ?f m = ?f best
        \<and> (\<forall>m'\<in>set messages. ?f m' = ?f best \<longrightarrow> priority m' \<le> priority m)) messages = Some best"
  proof
    fix best assume "best \<in> set unique"
    then obtain i where i: "i < length unique" and b: "best = unique ! i"
      by (auto simp: in_set_conv_nth)
    from all i have "max_priority (filter (\<lambda>m. ?f m = ?ks ! i) messages) = Some (unique ! i)"
      by (rule list_all2_nthD2)
    with b have "max_priority (filter (\<lambda>m. ?f m = ?ks ! i) messages) = Some best" by simp
    then show "find (\<lambda>m. ?f m = ?f best
        \<and> (\<forall>m'\<in>set messages. ?f m' = ?f best \<longrightarrow> priority m' \<le> priority m)) messages = Some best"
      by (rule first)
  qed
  with u keys show ?thesis by blast
qed

lemma example_duplicates_deduplicated:
  "deduplicate_messages md5_sample example_duplicates (4 / 5) =
     Some [new_Message ''user'' ''world hello'' None None 7 0, new_Message ''user'' ''foo'' None None 3 0]"
  by code_simp

lemma example_duplicates_fingerprints:
  "map (\<lambda>m. semantic_hash md5_sample (content m)) example_duplicates
       = [''5eb63bbbe01eeed0'', ''5eb63bbbe01eeed0'', ''acbd18db4cc2f85c'', ''5eb63bbbe01eeed0'']"
  by code_simp

theorem deduplicate_messages_representatives_witness:
  "deduplicate_messages md5_sample example_duplicates (4 / 5) =
     Some [new_Message ''user'' ''world hello'' None None 7 0, new_Message ''user'' ''foo'' None None 3 0]
   \<and> map (\<lambda>m. semantic_hash md5_sample (content m)) example_duplicates
       = [''5eb63bbbe01eeed0'', ''5eb63bbbe01eeed0'', ''acbd18db4cc2f85c'', ''5eb63bbbe01eeed0'']
   \<and> map (\<lambda>m. semantic_hash md5_sample (content m))
        [new_Message ''user'' ''world hello'' None None 7 0, new_Message ''user'' ''foo'' None None 3 0]
       = [''5eb63bbbe01eeed0'', ''acbd18db4cc2f85c'']"
  using deduplicate_messages_representatives [of md5_sample example_duplicates "4 / 5"]
  by (simp add: example_duplicates_deduplicated example_duplicates_fingerprints)

subsection \<open>Greedy accumulation\<close>

lemma greedy_loop_prefix:
  "\<exists>sel rest. xs = sel @ rest
     \<and> greedy_loop t xs (acc, cur) = (acc @ sel, cur + sum_list (map tokens sel))
     \<and> (\<forall>k<length sel. cur + sum_list (map tokens (take (Suc k) sel)) \<le> t)
     \<and> (\<forall>m rest'. rest = m # rest' \<longrightarrow> t < cur + sum_list (map tokens sel) + tokens m)"
proof (induction xs arbitrary: acc cur)
  case Nil
  show ?case by simp
next
  case (Cons x xs)
  show ?case
  proof (cases "cur + tokens x \<le> t")
    case False
    then have "x # xs = [] @ (x # xs)
       \<and> greedy_loop t (x # xs) (acc, cur) = (acc @ [], cur + sum_list (map tokens []))
       \<and> (\<forall>k<length ([]::Message list). cur + sum_list (map tokens (take (Suc k) [])) \<le> t)
       \<and> (\<forall>m rest'. x # xs = m # rest' \<longrightarrow> t < cur + sum_list (map tokens []) + tokens m)"
      by simp
    then show ?thesis by blast
  next
    case True
    from Cons.IH [of "acc @ [x]" "cur + tokens x"]
    obtain sel rest where xs: "xs = sel @ rest"
      and run: "greedy_loop t xs (acc @ [x], cur + tokens x) = ((acc @ [x]) @ sel, cur + tokens x + sum_list (map tokens sel))"
      and fits: "\<forall>k<length sel. cur + tokens x + sum_list (map tokens (take (Suc k) sel)) \<le> t"
      and stop: "\<forall>m rest'. rest = m # rest' \<longrightarrow> t < cur + tokens x + sum_list (map tokens sel) + tokens m"
      by blast
    have fits': "\<forall>k<length (x # sel). cur + sum_list (map tokens (take (Suc k) (x # sel))) \<le> t"
    proof (intro allI impI)
      fix k assume k: "k < length (x # sel)"
      show "cur + sum_list (map tokens (take (Suc k) (x # sel))) \<le> t"
      proof (cases k)
        case 0
        with True show ?thesis by simp
      next
        case (Suc j)
        with k have "j < length sel" by simp
        with fits have "cur + tokens x + sum_list (map tokens (take (Suc j) sel)) \<le> t" by blast
        with Suc show ?thesis by (simp add: add.assoc)
      qed
    qed
    from xs run True stop have "x # xs = (x # sel) @ rest
       \<and> greedy_loop t (x # xs) (acc, cur) = (acc @ (x # sel), cur + sum_list (map tokens (x # sel)))
       \<and> (\<forall>m rest'. rest = m # rest' \<longrightarrow> t < cur + sum_list (map tokens (x # sel)) + tokens m)"
      by (simp add: add.assoc)
    with fits' show ?thesis by blast
  qed
qed

lemma greedy_accumulate_result:
  "\<exists>sel rest. greedy_accumulate target recent old_filtered
        = (sel, sum_list (map tokens recent) + sum_list (map tokens sel))
     \<and> old_filtered = sel @ rest
     \<and> (sel \<noteq> [] \<longrightarrow> sum_list (map tokens recent) + sum_list (map tokens sel) \<le> target)"
proof -
  from greedy_loop_prefix [of old_filtered target "[]" "sum_list (map tokens recent)"]
  obtain sel rest where pre: "old_filtered = sel @ rest"
    and run: "greedy_loop target old_filtered ([], sum_list (map tokens recent))
           = ([] @ sel, sum_list (map tokens recent) + sum_list (map tokens sel))"
    and fits: "\<forall>k<length sel. sum_list (map tokens recent) + sum_list (map tokens (take (Suc k) sel)) \<le> target"
    by blast
  have "sum_list (map tokens recent) + sum_list (map tokens sel) \<le> target" if "sel \<noteq> []"
  proof -
    from that have "length sel - 1 < length sel" by simp
    with fits have "sum_list (map tokens recent) + sum_list (map tokens (take (Suc (length sel - 1)) sel)) \<le> target"
      by blast
    with that show ?thesis by simp
  qed
  with pre run have "greedy_accumulate target recent old_filtered
        = (sel, sum_list (map tokens recent) + sum_list (map tokens sel))
     \<and> old_filtered = sel @ rest
     \<and> (sel \<noteq> [] \<longrightarrow> sum_list (map tokens recent) + sum_list (map tokens sel) \<le> target)"
    by (simp add: greedy_accumulate_def)
  then show ?thesis by blast
qed

text \<open>
  Claim C5: the greedy step starts its running total at the sum of the recent tier's tokens
  and walks the sorted list in order. What it selects is a prefix \<open>sel\<close> of the list; after
  each selected message the total is within the target; the final total is the start plus the
  tokens selected; and the message right after the prefix, if there is one, would exceed the
  target: the walk stops there and adds nothing that comes later.
\<close>

theorem greedy_accumulate_strict_prefix:
  "\<exists>sel rest. greedy_accumulate target recent old_filtered
        = (sel, sum_list (map tokens recent) + sum_list (map tokens sel))
     \<and> old_filtered = sel @ rest
     \<and> (\<forall>k<length sel. sum_list (map tokens recent) + sum_list (map tokens (take (Suc k) sel)) \<le> target)
     \<and> (\<forall>m rest'. rest = m # rest' \<longrightarrow>
           target < sum_list (map tokens recent) + sum_list (map tokens sel) + tokens m)"
proof -
  from greedy_loop_prefix [of old_filtered target "[]" "sum_list (map tokens recent)"]
  obtain sel rest where "old_filtered = sel @ rest"
    and "greedy_loop target old_filtered ([], sum_list (map tokens recent))
           = ([] @ sel, sum_list (map tokens recent) + sum_list (map tokens sel))"
    and "\<forall>k<length sel. sum_list (map tokens recent) + sum_list (map tokens (take (Suc k) sel)) \<le> target"
    and "\<forall>m rest'. rest = m # rest' \<longrightarrow>
           target < sum_list (map tokens recent) + sum_list (map tokens sel) + tokens m"
    by blast
  then have "greedy_accumulate target recent old_filtered
        = (sel, sum_list (map tokens recent) + sum_list (map tokens sel))
     \<and> old_filtered = sel @ rest
     \<and> (\<forall>k<length sel. sum_list (map tokens recent) + sum_list (map tokens (take (Suc k) sel)) \<le> target)
     \<and> (\<forall>m rest'. rest = m # rest' \<longrightarrow>
           target < sum_list (map tokens recent) + sum_list (map tokens sel) + tokens m)"
    by (simp add: greedy_accumulate_def)
  then show ?thesis by blast
qed

lemma example_greedy:
  "greedy_accumulate 20 [new_Message ''user'' ''omega'' None None 5 1]
     [new_Message ''user'' ''alpha'' None None 5 10, new_Message ''user'' ''beta'' None None 5 100,
      new_Message ''user'' ''gamma'' None None 5 2]
   = ([new_Message ''user'' ''alpha'' None None 5 10], 11)"
  by code_simp

theorem greedy_accumulate_strict_prefix_witness:
  "greedy_accumulate 20 [new_Message ''user'' ''omega'' None None 5 1]
     [new_Message ''user'' ''alpha'' None None 5 10, new_Message ''user'' ''beta'' None None 5 100,
      new_Message ''user'' ''gamma'' None None 5 2]
   = ([new_Message ''user'' ''alpha'' None None 5 10], 11)
   \<and> 11 + tokens (new_Message ''user'' ''gamma'' None None 5 2) \<le> 20"
  using greedy_accumulate_strict_prefix [of 20 "[new_Message ''user'' ''omega'' None None 5 1]"
     "[new_Message ''user'' ''alpha'' None None 5 10, new_Message ''user'' ''beta'' None None 5 100,
      new_Message ''user'' ''gamma'' None None 5 2]"]
  by (simp add: example_greedy) (simp add: new_Message_def post_init_def)

subsection \<open>The pipeline\<close>

lemma recent_tier_score_all:
  "recent_tier (score_all messages) n =
     map (\<lambda>msg. msg\<lparr>priority := calculate_priority msg\<rparr>) (recent_tier messages n)"
  by (simp add: recent_tier_def score_all_def drop_map)

lemma optimize_context_unfold:
  assumes "messages \<noteq> []"
    and "deduplicate_messages md5 (old_tier (score_all messages) n) (4 / 5) = Some old_unique"
  shows "optimize_context md5 messages target n minp =
     Some (fallback target (old_tier (score_all messages) n) (rank_old old_unique minp)
             (greedy_accumulate target (recent_tier (score_all messages) n) (rank_old old_unique minp))
           @ recent_tier (score_all messages) n)"
  using assms by (simp add: optimize_context_def Let_def)






text \<open>
  The example conversation, step by step, with the last message as the recent tier and the
  targets 21 and 22.
\<close>

lemma example_messages_scored: "score_all example_messages = example_scored"
  by code_simp

lemma example_old_tier: "old_tier example_scored 1 = take 4 example_scored"
  by code_simp

lemma example_recent_tier: "recent_tier example_scored 1 = drop 4 example_scored"
  by code_simp

lemma example_old_unique:
  "deduplicate_messages md5_sample (take 4 example_scored) (4 / 5) = Some (take 4 example_scored)"
  by code_simp

lemma example_rank_old: "rank_old (take 4 example_scored) 4 = take 4 example_scored"
  by code_simp

lemma example_summary_tokens:
  "tokens (summarize_messages (take 20 (take 4 example_scored)) 500) = 11
   \<and> sum_list (map tokens (drop 4 example_scored)) = 1"
  by code_simp

lemma example_greedy_21:
  "greedy_accumulate 21 (drop 4 example_scored) (take 4 example_scored) = (take 1 example_scored, 11)"
  by code_simp

lemma example_greedy_22:
  "greedy_accumulate 22 (drop 4 example_scored) (take 4 example_scored) = (take 1 example_scored, 11)"
  by code_simp

lemma example_fallback_21:
  "fallback 21 (take 4 example_scored) (take 4 example_scored) (take 1 example_scored, 11)
     = take 1 example_scored"
  by code_simp

lemma example_fallback_22:
  "fallback 22 (take 4 example_scored) (take 4 example_scored) (take 1 example_scored, 11)
     = summarize_messages (take 20 (take 4 example_scored)) 500 # take 10 (take 1 example_scored)"
  by code_simp

lemma example_unfold:
  "optimize_context md5_sample example_messages target 1 4 =
     Some (fallback target (take 4 example_scored) (take 4 example_scored)
             (greedy_accumulate target (drop 4 example_scored) (take 4 example_scored))
           @ drop 4 example_scored)"
proof -
  have ne: "example_messages \<noteq> []" by (simp add: example_messages_def)
  have d: "deduplicate_messages md5_sample (old_tier (score_all example_messages) 1) (4 / 5)
      = Some (take 4 example_scored)"
    by (simp only: example_messages_scored example_old_tier example_old_unique)
  from optimize_context_unfold [OF ne d, of target 4]
  show ?thesis
    by (simp only: example_messages_scored example_old_tier example_recent_tier example_rank_old)
qed

lemma example_result_21:
  "optimize_context md5_sample example_messages 21 1 4
     = Some (take 1 example_scored @ drop 4 example_scored)"
  by (simp only: example_unfold example_greedy_21 example_fallback_21)

lemma example_result_22:
  "optimize_context md5_sample example_messages 22 1 4
     = Some ((summarize_messages (take 20 (take 4 example_scored)) 500 # take 10 (take 1 example_scored))
             @ drop 4 example_scored)"
  by (simp only: example_unfold example_greedy_22 example_fallback_22)

text \<open>
  Claim C6 says that for a non-empty input and \<open>preserve_recent > 0\<close> the result ends with the
  last \<open>preserve_recent\<close> input messages, unmodified. Lines 170 and 171 overwrite the priority
  of every message, those of the recent tier too: the one message \<open>ok\<close>, built with the
  default priority 5, comes back with the priority 3/2.
\<close>

theorem optimize_context_keeps_recent_counterexample:
  "optimize_context md5_sample [new_Message ''user'' ''ok'' None None 5 0] 100 1 5
     = Some [new_Message ''user'' ''ok'' None None (3 / 2) 0]
   \<and> \<not> (\<exists>old_part. optimize_context md5_sample [new_Message ''user'' ''ok'' None None 5 0] 100 1 5
           = Some (old_part @ [new_Message ''user'' ''ok'' None None 5 0]))"
proof -
  have r: "optimize_context md5_sample [new_Message ''user'' ''ok'' None None 5 0] 100 1 5
     = Some [new_Message ''user'' ''ok'' None None (3 / 2) 0]"
    by code_simp
  have "new_Message ''user'' ''ok'' None None (3 / 2) 0 \<noteq> new_Message ''user'' ''ok'' None None 5 0"
    by code_simp
  with r show ?thesis by simp
qed

text \<open>
  C6, amended: for a non-empty input and \<open>preserve_recent > 0\<close>, \<open>optimize_context\<close> returns a
  list that ends with the last \<open>preserve_recent\<close> input messages (all of them when there are
  fewer), in their order, each with its priority replaced by \<open>calculate_priority\<close> of it and
  every other field as it was; this holds for every target, so the recent tier is never
  filtered, deduplicated, truncated or dropped.
\<close>

theorem optimize_context_keeps_recent:
  assumes "messages \<noteq> []" and "0 < preserve_recent"
  shows "\<exists>old_part. optimize_context md5 messages target_tokens preserve_recent min_priority =
     Some (old_part @ map (\<lambda>msg. msg\<lparr>priority := calculate_priority msg\<rparr>)
                        (drop (length messages - nat preserve_recent) messages))"
proof -
  obtain old_unique where
    "deduplicate_messages md5 (old_tier (score_all messages) preserve_recent) (4 / 5) = Some old_unique"
    using deduplicate_messages_total by blast
  with assms(1) have "optimize_context md5 messages target_tokens preserve_recent min_priority =
     Some (fallback target_tokens (old_tier (score_all messages) preserve_recent) (rank_old old_unique min_priority)
             (greedy_accumulate target_tokens (recent_tier (score_all messages) preserve_recent)
                (rank_old old_unique min_priority))
           @ recent_tier (score_all messages) preserve_recent)"
    by (rule optimize_context_unfold)
  moreover from assms(2) have "recent_tier (score_all messages) preserve_recent =
      map (\<lambda>msg. msg\<lparr>priority := calculate_priority msg\<rparr>)
        (drop (length messages - nat preserve_recent) messages)"
    by (simp add: recent_tier_score_all) (simp add: recent_tier_def)
  ultimately show ?thesis by simp
qed

theorem optimize_context_keeps_recent_witness:
  "example_messages \<noteq> [] \<and> (0::int) < 1
   \<and> optimize_context md5_sample example_messages 22 1 4
       = Some ((summarize_messages (take 20 (take 4 example_scored)) 500 # take 10 (take 1 example_scored))
               @ drop 4 example_scored)
   \<and> drop 4 example_scored
       = map (\<lambda>msg. msg\<lparr>priority := calculate_priority msg\<rparr>)
           (drop (length example_messages - nat 1) example_messages)"
proof -
  have ne: "example_messages \<noteq> []" by (simp add: example_messages_def)
  have "drop 4 example_scored = drop 4 (score_all example_messages)"
    by (simp only: example_messages_scored)
  also have "\<dots> = map (\<lambda>msg. msg\<lparr>priority := calculate_priority msg\<rparr>)
           (drop (length example_messages - nat 1) example_messages)"
    by (simp add: score_all_def drop_map example_messages_def)
  finally have "drop 4 example_scored
       = map (\<lambda>msg. msg\<lparr>priority := calculate_priority msg\<rparr>)
           (drop (length example_messages - nat 1) example_messages)" .
  with ne show ?thesis
    using optimize_context_keeps_recent [of example_messages 1 md5_sample 22 4]
    by (simp only: example_result_22 simp_thms)
qed

text \<open>
  Claim C2 says that, when the fallback triggers, the selection is replaced by the summary and
  the first ten selected messages if and only if the tokens of the recent tier plus those of
  the summary are within the target. Line 200 tests \<open>current_tokens\<close>, which by then also
  holds the tokens of the greedily selected messages. In the example with the target 21 the
  old tier has four messages, one is selected, the recent tier has 1 token and the summary 11,
  so the claim's test holds; the total of line 200 is 22 and the selection stays.
\<close>

theorem optimize_context_fallback_counterexample:
  "score_all example_messages = example_scored
   \<and> old_tier example_scored 1 = take 4 example_scored
   \<and> take 4 example_scored \<noteq> []
   \<and> recent_tier example_scored 1 = drop 4 example_scored
   \<and> deduplicate_messages md5_sample (take 4 example_scored) (4 / 5) = Some (take 4 example_scored)
   \<and> rank_old (take 4 example_scored) 4 = take 4 example_scored
   \<and> fst (greedy_accumulate 21 (drop 4 example_scored) (take 4 example_scored)) = take 1 example_scored
   \<and> int (length (take 1 example_scored)) < int (length (take 4 example_scored)) div 2
   \<and> sum_list (map tokens (drop 4 example_scored))
       + tokens (summarize_messages (take 20 (take 4 example_scored)) 500) \<le> 21
   \<and> optimize_context md5_sample example_messages 21 1 4
       = Some (take 1 example_scored @ drop 4 example_scored)
   \<and> optimize_context md5_sample example_messages 21 1 4
       \<noteq> Some ((summarize_messages (take 20 (take 4 example_scored)) 500 # take 10 (take 1 example_scored))
               @ drop 4 example_scored)"
proof -
  have h1: "take 4 example_scored \<noteq> []" by code_simp
  have h2: "int (length (take 1 example_scored)) < int (length (take 4 example_scored)) div 2"
    by code_simp
  have h3: "take 1 example_scored @ drop 4 example_scored
      \<noteq> (summarize_messages (take 20 (take 4 example_scored)) 500 # take 10 (take 1 example_scored))
         @ drop 4 example_scored"
    by code_simp
  have h4: "sum_list (map tokens (drop 4 example_scored))
       + tokens (summarize_messages (take 20 (take 4 example_scored)) 500) \<le> 21"
    by code_simp
  show ?thesis
    by (simp only: example_messages_scored example_old_tier example_recent_tier example_old_unique
        example_rank_old example_greedy_21 example_result_21 fst_conv option.inject simp_thms
        h1 h2 h3 h4)
qed

text \<open>
  C2, amended: when the old tier is non-empty and fewer messages are selected than half the
  size of the filtered set (floor division), a summary is built from the first 20 messages of
  the sorted filtered set, and the selection is replaced by the summary followed by at most
  the first 10 selected messages if and only if the running total after the greedy step (the
  tokens of the recent tier plus the tokens of all selected messages) plus the summary's
  tokens is within the target.
\<close>

theorem optimize_context_fallback:
  assumes "messages \<noteq> []"
  shows "\<exists>old_unique sel.
     deduplicate_messages md5 (old_tier (score_all messages) n) (4 / 5) = Some old_unique
   \<and> greedy_accumulate target (recent_tier (score_all messages) n) (rank_old old_unique minp)
       = (sel, sum_list (map tokens (recent_tier (score_all messages) n)) + sum_list (map tokens sel))
   \<and> (old_tier (score_all messages) n \<noteq> []
        \<and> int (length sel) < int (length (rank_old old_unique minp)) div 2 \<longrightarrow>
        optimize_context md5 messages target n minp =
          Some ((if sum_list (map tokens (recent_tier (score_all messages) n)) + sum_list (map tokens sel)
                    + tokens (summarize_messages (take 20 (rank_old old_unique minp)) 500) \<le> target
                 then summarize_messages (take 20 (rank_old old_unique minp)) 500 # take 10 sel
                 else sel) @ recent_tier (score_all messages) n))"
proof -
  let ?recent = "recent_tier (score_all messages) n"
  let ?old = "old_tier (score_all messages) n"
  obtain old_unique where u: "deduplicate_messages md5 ?old (4 / 5) = Some old_unique"
    using deduplicate_messages_total by blast
  let ?filtered = "rank_old old_unique minp"
  from greedy_accumulate_result [of target ?recent ?filtered]
  obtain sel where g: "greedy_accumulate target ?recent ?filtered
      = (sel, sum_list (map tokens ?recent) + sum_list (map tokens sel))"
    by blast
  from assms u have "optimize_context md5 messages target n minp =
     Some (fallback target ?old ?filtered (greedy_accumulate target ?recent ?filtered) @ ?recent)"
    by (rule optimize_context_unfold)
  with g have "?old \<noteq> [] \<and> int (length sel) < int (length ?filtered) div 2 \<longrightarrow>
        optimize_context md5 messages target n minp =
          Some ((if sum_list (map tokens ?recent) + sum_list (map tokens sel)
                    + tokens (summarize_messages (take 20 ?filtered) 500) \<le> target
                 then summarize_messages (take 20 ?filtered) 500 # take 10 sel
                 else sel) @ ?recent)"
    by (simp add: fallback_def Let_def)
  with u g show ?thesis by blast
qed

theorem optimize_context_fallback_witness:
  "example_messages \<noteq> []
   \<and> optimize_context md5_sample example_messages 22 1 4
       = Some ((summarize_messages (take 20 (take 4 example_scored)) 500 # take 10 (take 1 example_scored))
               @ drop 4 example_scored)
   \<and> sum_list (map tokens (drop 4 example_scored)) + sum_list (map tokens (take 1 example_scored))
       + tokens (summarize_messages (take 20 (take 4 example_scored)) 500) \<le> 22"
proof -
  have ne: "example_messages \<noteq> []" by (simp add: example_messages_def)
  have c: "sum_list (map tokens (drop 4 example_scored)) + sum_list (map tokens (take 1 example_scored))
       + tokens (summarize_messages (take 20 (take 4 example_scored)) 500) \<le> 22"
    by code_simp
  show ?thesis
    using optimize_context_fallback [of example_messages md5_sample 1 22 4] ne c
    by (simp only: example_result_22 simp_thms)
qed



end
